theory Spec2Isabelle
  imports Main "HOL-Library.Sublist"
begin

section \<open>Strings and string constants of wechat_listener.py\<close>

text \<open>
  A Python \<open>str\<close> is a sequence of Unicode code points, and \<open>len\<close>, slicing, \<open>rfind\<close>,
  \<open>in\<close> and \<open>replace\<close> all count code points. The model therefore takes a string to be
  the list of its code points. \<open>keyword in content\<close> is \<^const>\<open>sublist\<close> (a contiguous
  infix).
\<close>

type_synonym pystr = "nat list"

definition NL :: nat where
  \<comment> \<open>the line feed of the literal \<open>'\n'\<close>\<close>
  "NL = 10"

definition BANNER :: pystr where
  \<comment> \<open>the marker of line 112, without its line feed (it is the literal of line 232)\<close>
  "BANNER = [129302, 12304, 68, 101, 101, 112, 83, 101, 101, 107, 29983, 25104, 12305]"

definition MSG_NOT_CONFIGURED :: pystr where
  \<comment> \<open>line 83: service not configured, set the API key first\<close>
  "MSG_NOT_CONFIGURED =
     [10060, 32, 26381, 21153, 26410, 37197, 32622, 65292, 35831, 20808, 35774, 32622,
      65, 80, 73, 23494, 38053]"

definition MSG_THINKING :: pystr where
  \<comment> \<open>line 115: still thinking, try again later\<close>
  "MSG_THINKING =
     [25105, 36824, 22312, 24605, 32771, 20013, 65292, 35831, 31245, 21518, 20877, 35797]"

definition MSG_TIMEOUT :: pystr where
  \<comment> \<open>line 124: the request timed out, try again later\<close>
  "MSG_TIMEOUT = [35831, 27714, 36229, 26102, 65292, 35831, 31245, 21518, 20877, 35797]"

definition MSG_NETWORK :: pystr where
  \<comment> \<open>line 132: there is a problem with the network connection\<close>
  "MSG_NETWORK = [32593, 32476, 36830, 25509, 20986, 29616, 38382, 39064]"

definition MSG_PROCESSING :: pystr where
  \<comment> \<open>line 136: an error occurred while processing the message\<close>
  "MSG_PROCESSING = [22788, 29702, 28040, 24687, 26102, 21457, 29983, 38169, 35823]"

definition MSG_UNAVAILABLE :: pystr where
  \<comment> \<open>line 138: the service is temporarily unavailable, try again later\<close>
  "MSG_UNAVAILABLE =
     [26381, 21153, 26242, 26102, 19981, 21487, 29992, 65292, 35831, 31245, 21518, 20877,
      35797]"

definition MSG_APOLOGY :: pystr where
  \<comment> \<open>line 212: sorry, something went wrong, please try once more\<close>
  "MSG_APOLOGY =
     [25265, 27465, 65292, 22788, 29702, 28040, 24687, 26102, 20986, 20102, 28857, 38382,
      39064, 65292, 35831, 20877, 35797, 19968, 27425]"

definition skip_keywords :: "pystr list" where
  \<comment> \<open>line 194, in the order of the source\<close>
  "skip_keywords =
     [[20197, 19979, 20026, 26032, 28040, 24687],
      [25910, 21040, 35831, 22238, 22797],
      [34917, 20805, 36890, 30693],
      [32593, 32476, 36830, 25509, 20986, 29616, 38382, 39064]]"

definition FRIEND :: pystr where
  \<comment> \<open>the type tag \<open>'friend'\<close> of line 199\<close>
  "FRIEND = [102, 114, 105, 101, 110, 100]"

definition rfind :: "nat \<Rightarrow> pystr \<Rightarrow> nat \<Rightarrow> int" where
  \<comment> \<open>\<open>s.rfind(c, 0, e)\<close> for a one-character \<open>c\<close> and \<open>e \<ge> 0\<close>: the highest index below
      \<open>min e (len s)\<close> that holds \<open>c\<close>, or \<open>-1\<close>\<close>
  "rfind c s e =
     (case filter (\<lambda>i. s ! i = c) (rev [0..<min e (length s)]) of
        [] \<Rightarrow> - 1
      | i # _ \<Rightarrow> int i)"

function replace_empty :: "pystr \<Rightarrow> pystr \<Rightarrow> pystr" where
  \<comment> \<open>\<open>s.replace(old, "")\<close>: the non-overlapping occurrences of \<open>old\<close>, found from the
      left, are removed; an empty \<open>old\<close> leaves \<open>s\<close> as it is\<close>
  "replace_empty old s =
     (if old = [] \<or> s = [] then s
      else if prefix old s then replace_empty old (drop (length old) s)
      else hd s # replace_empty old (tl s))"
  by pat_completeness auto
termination
  by (relation "measure (\<lambda>(old, s). length s)") auto

section \<open>What the program does to the outside world\<close>

datatype level = INFO | WARNING | ERROR

datatype event =
    Log level                 \<comment> \<open>a call of \<open>logger.info\<close>, \<open>logger.warning\<close>, \<open>logger.error\<close>\<close>
  | Post nat nat              \<comment> \<open>\<open>requests.post\<close> of attempt number, with timeout in seconds\<close>
  | Sleep nat                 \<comment> \<open>\<open>time.sleep\<close>, in milliseconds\<close>
  | Sent pystr pystr          \<comment> \<open>\<open>SendMsg\<close> to a peer returned\<close>
  | SendFailed pystr pystr    \<comment> \<open>\<open>SendMsg\<close> to a peer raised\<close>

text \<open>
  The exception classes the handlers of \<open>get_reply\<close> tell apart, most specific first:
  \<open>requests.exceptions.Timeout\<close> is a \<open>RequestException\<close>, which is an \<open>Exception\<close>.
\<close>

datatype exn = Timeout | RequestException | OtherException

text \<open>
  What lines 105 to 111 get from the network on one attempt: an exception (from
  \<open>requests.post\<close>, \<open>raise_for_status\<close>, \<open>response.json\<close> or from indexing into the
  data), or the decoded data, of which the code looks only at \<open>data.get("choices")\<close>:
  \<open>Data None\<close> when that is missing or falsy, \<open>Data (Some c)\<close> when
  \<open>data["choices"][0]["message"]["content"]\<close> is the text \<open>c\<close>.
\<close>

datatype response = Raises exn | Data "pystr option"

record datetime =
  day :: nat
  hour :: nat
  minute :: nat
  second :: nat

text \<open>
  The collaborators of the listener. Each answer may depend on everything that happened
  before it (the events so far), so any behaviour of the network and of the chat client
  is an instance.
\<close>

record env =
  API_KEY :: "pystr option"
    \<comment> \<open>the class attribute \<open>DeepSeekAPI.API_KEY\<close>\<close>
  endpoint :: "event list \<Rightarrow> pystr \<Rightarrow> nat \<Rightarrow> response"
    \<comment> \<open>the completion endpoint: history, message, attempt number\<close>
  send_raises :: "event list \<Rightarrow> pystr \<Rightarrow> pystr \<Rightarrow> bool"
    \<comment> \<open>whether \<open>SendMsg\<close> of a text to a peer raises: history, peer, text\<close>
  format_report :: "pystr \<Rightarrow> datetime \<Rightarrow> pystr option"
    \<comment> \<open>\<open>template.format(time=now.strftime(...))\<close>, \<open>None\<close> when it raises\<close>

definition SendMsg :: "env \<Rightarrow> event list \<Rightarrow> pystr \<Rightarrow> pystr \<Rightarrow> exn option \<times> event list" where
  "SendMsg e tr peer text =
     (if send_raises e tr peer text then (Some OtherException, tr @ [SendFailed peer text])
      else (None, tr @ [Sent peer text]))"

section \<open>DeepSeekAPI.get_reply\<close>

fun attempts :: "(nat \<Rightarrow> response) \<Rightarrow> int \<Rightarrow> nat list \<Rightarrow> (exn + pystr) \<times> event list" where
  "attempts ep retries [] = (Inr MSG_UNAVAILABLE, [])"
| "attempts ep retries (attempt # rest) =
     (let timeout = 15 + attempt * 5;
          made = [Log INFO, Post attempt timeout]
      in case ep attempt of
           Data (Some reply_content) \<Rightarrow> (Inr (BANNER @ [NL] @ reply_content), made)
         | Data None \<Rightarrow> (Inr MSG_THINKING, made @ [Log ERROR])
         | Raises Timeout \<Rightarrow>
             if int attempt < retries
             then (let (r, tr) = attempts ep retries rest
                   in (r, made @ [Log WARNING, Sleep (1000 * (1 + attempt))] @ tr))
             else (Inr MSG_TIMEOUT, made @ [Log ERROR])
         | Raises RequestException \<Rightarrow>
             if int attempt < retries
             then (let (r, tr) = attempts ep retries rest
                   in (r, made @ [Log ERROR, Sleep 1000] @ tr))
             else (Inr MSG_NETWORK, made @ [Log ERROR])
         | Raises OtherException \<Rightarrow> (Inr MSG_PROCESSING, made @ [Log ERROR]))"

definition get_reply ::
  "pystr option \<Rightarrow> (pystr \<Rightarrow> nat \<Rightarrow> response) \<Rightarrow> pystr \<Rightarrow> int \<Rightarrow> (exn + pystr) \<times> event list" where
  \<comment> \<open>the result is \<open>Inl\<close> for an exception that leaves the function, \<open>Inr\<close> for a returned
      string; \<open>range(retries + 1)\<close> is \<open>0, ..., retries\<close>\<close>
  "get_reply api_key ep message retries =
     (if api_key = None \<or> api_key = Some [] then (Inr MSG_NOT_CONFIGURED, [Log ERROR])
      else attempts (ep message) retries (map nat [0..retries]))"

fun post_attempts :: "event list \<Rightarrow> nat list" where
  "post_attempts [] = []"
| "post_attempts (Post attempt timeout # tr) = attempt # post_attempts tr"
| "post_attempts (_ # tr) = post_attempts tr"

section \<open>WeChatListener\<close>

record msg =
  sender :: pystr
  msgtype :: pystr
  content :: pystr
  seen_at :: datetime
    \<comment> \<open>what \<open>datetime.now()\<close> of line 191 returns while this message is processed\<close>

record listener =
  listen_list :: "pystr list"
  interval :: nat
  self_name :: pystr
  max_message_length :: nat
  last_message_time :: "pystr \<rightharpoonup> datetime"
  time_report :: bool
  time_report_who :: pystr
  time_report_message :: pystr
  last_reported_hour :: int
  trace :: "event list"
    \<comment> \<open>not a field of the class: the events of the run so far\<close>

text \<open>
  How a call ends: it returns, an exception leaves it, or it never ends. Each case
  carries what the call has reached by then (the listener, or the events), since what was
  assigned or done before an exception or before an endless loop stays assigned and done.
\<close>

datatype 'a outcome =
    Returns (reached: 'a)
  | Raised exn (reached: 'a)
  | Hangs (reached: 'a)

subsection \<open>send_long_message\<close>

text \<open>
  The loop of lines 218 to 228. It need not end, so it is a partial function:
  \<open>None\<close> is a run that never leaves the loop.
\<close>

partial_function (option) split_loop :: "nat \<Rightarrow> pystr \<Rightarrow> pystr list \<Rightarrow> pystr list option" where
  "split_loop maxlen message parts =
     (if message \<noteq> [] then
        (if length message > maxlen then
           (let split_index = rfind NL message maxlen;
                split_index = (if split_index = - 1 then int maxlen else split_index)
            in split_loop maxlen (drop (nat split_index) message)
                 (parts @ [take (nat split_index) message]))
         else split_loop maxlen [] (parts @ [message]))
      else Some parts)"

declare split_loop.simps [code]

definition split_step :: "nat \<Rightarrow> pystr \<times> pystr list \<Rightarrow> pystr \<times> pystr list" where
  \<comment> \<open>one turn of the same loop (lines 219 to 228), on the pair of \<open>message\<close> and
      \<open>parts\<close>\<close>
  "split_step maxlen = (\<lambda>(message, parts).
     if length message > maxlen then
       (let split_index = rfind NL message maxlen;
            split_index = (if split_index = - 1 then int maxlen else split_index)
        in (drop (nat split_index) message, parts @ [take (nat split_index) message]))
     else ([], parts @ [message]))"

fun split_upto :: "nat \<Rightarrow> nat \<Rightarrow> pystr \<times> pystr list \<Rightarrow> pystr \<times> pystr list" where
  \<comment> \<open>\<open>message\<close> and \<open>parts\<close> after at most \<open>k\<close> turns of the loop, which stops when
      \<open>message\<close> is empty\<close>
  "split_upto 0 maxlen s = s"
| "split_upto (Suc k) maxlen s =
     (if fst s \<noteq> [] then split_upto k maxlen (split_step maxlen s) else s)"

definition strip_banner :: "nat \<Rightarrow> pystr \<Rightarrow> pystr" where
  \<comment> \<open>lines 232 and 233\<close>
  "strip_banner i part =
     (if i > 0 \<and> sublist BANNER part then replace_empty (BANNER @ [NL]) part else part)"

fun send_parts :: "env \<Rightarrow> pystr \<Rightarrow> event list \<Rightarrow> (nat \<times> pystr) list \<Rightarrow> event list" where
  \<comment> \<open>the loop of lines 230 to 238 over \<open>enumerate(parts)\<close>\<close>
  "send_parts e peer tr [] = tr"
| "send_parts e peer tr ((i, part) # rest) =
     (case SendMsg e tr peer (strip_banner i part) of
        (None, tr') \<Rightarrow> send_parts e peer (tr' @ [Log INFO, Sleep 500]) rest
      | (Some err, tr') \<Rightarrow> send_parts e peer (tr' @ [Log ERROR]) rest)"

definition send_long_message ::
  "env \<Rightarrow> nat \<Rightarrow> event list \<Rightarrow> pystr \<Rightarrow> pystr \<Rightarrow> event list outcome" where
  \<comment> \<open>nothing is sent before the splitting loop has ended\<close>
  "send_long_message e maxlen tr peer message =
     (case split_loop maxlen message [] of
        None \<Rightarrow> Hangs tr
      | Some parts \<Rightarrow> Returns (send_parts e peer tr (enumerate 0 parts)))"

subsection \<open>process_message\<close>

definition reply_to :: "env \<Rightarrow> listener \<Rightarrow> pystr \<Rightarrow> pystr \<Rightarrow> event list outcome" where
  \<comment> \<open>the body of the \<open>try\<close> of lines 201 to 208, with the events up to its end\<close>
  "reply_to e st peer text =
     (case get_reply (API_KEY e) (endpoint e (trace st)) text 2 of
        (Inl err, evs) \<Rightarrow> Raised err (trace st @ evs)
      | (Inr api_reply, evs) \<Rightarrow>
          (let tr = trace st @ evs @ [Log INFO]
           in if length api_reply > max_message_length st
              then send_long_message e (max_message_length st) tr peer api_reply
              else (case SendMsg e tr peer api_reply of
                      (None, tr') \<Rightarrow> Returns (tr' @ [Log INFO])
                    | (Some err, tr') \<Rightarrow> Raised err tr')))"

definition process_message :: "env \<Rightarrow> listener \<Rightarrow> pystr \<Rightarrow> msg \<Rightarrow> listener outcome" where
  "process_message e st peer m =
     (if sender m = self_name st then Returns (st\<lparr>trace := trace st @ [Log INFO]\<rparr>)
      else
        (let st1 = st\<lparr>last_message_time := (last_message_time st)(peer \<mapsto> seen_at m),
                      trace := trace st @ [Log INFO]\<rparr>
         in if list_ex (\<lambda>keyword. sublist keyword (content m)) skip_keywords
            then Returns (st1\<lparr>trace := trace st1 @ [Log INFO]\<rparr>)
            else if msgtype m = FRIEND \<and> peer \<in> set (listen_list st1)
            then (case reply_to e st1 peer (content m) of
                    Hangs tr \<Rightarrow> Hangs (st1\<lparr>trace := tr\<rparr>)
                  | Returns tr \<Rightarrow> Returns (st1\<lparr>trace := tr\<rparr>)
                  | Raised err tr \<Rightarrow>
                      Returns
                        (st1\<lparr>trace := snd (SendMsg e (tr @ [Log ERROR]) peer MSG_APOLOGY)\<rparr>))
            else Returns st1))"

subsection \<open>send_time_report\<close>

definition send_time_report :: "env \<Rightarrow> listener \<Rightarrow> datetime \<Rightarrow> listener" where
  \<comment> \<open>\<open>now\<close> is what \<open>datetime.now()\<close> of line 242 returns; every exception is caught
      and logged by line 253\<close>
  "send_time_report e st now =
     (let current_hour = int (hour now)
      in if minute now = 0 \<and> second now < 10 \<and> current_hour \<noteq> last_reported_hour st
         then (case format_report e (time_report_message st) now of
                 None \<Rightarrow> st\<lparr>trace := trace st @ [Log ERROR]\<rparr>
               | Some message \<Rightarrow>
                   (case SendMsg e (trace st) (time_report_who st) message of
                      (None, tr) \<Rightarrow>
                        st\<lparr>last_reported_hour := current_hour, trace := tr @ [Log INFO]\<rparr>
                    | (Some err, tr) \<Rightarrow> st\<lparr>trace := tr @ [Log ERROR]\<rparr>))
         else st)"

definition report_check :: "env \<Rightarrow> listener \<Rightarrow> datetime \<Rightarrow> listener" where
  \<comment> \<open>lines 268 and 269\<close>
  "report_check e st now = (if time_report st then send_time_report e st now else st)"

subsection \<open>listen_messages\<close>

fun process_all :: "env \<Rightarrow> listener \<Rightarrow> pystr \<Rightarrow> msg list \<Rightarrow> listener outcome" where
  \<comment> \<open>the loop of lines 275 and 276; an exception of \<open>process_message\<close> would end it\<close>
  "process_all e st peer [] = Returns st"
| "process_all e st peer (m # ms) =
     (case process_message e st peer m of
        Hangs st' \<Rightarrow> Hangs st'
      | Raised err st' \<Rightarrow> Raised err st'
      | Returns st' \<Rightarrow> process_all e st' peer ms)"

fun dispatch :: "env \<Rightarrow> listener \<Rightarrow> (pystr \<times> msg list) list \<Rightarrow> listener outcome" where
  \<comment> \<open>the loop of lines 272 to 276 over the fetched batch, peer by peer\<close>
  "dispatch e st [] = Returns st"
| "dispatch e st ((peer, one_msgs) # chats) =
     (if peer \<in> set (listen_list st)
      then (case process_all e st peer one_msgs of
              Hangs st' \<Rightarrow> Hangs st'
            | Raised err st' \<Rightarrow> Raised err st'
            | Returns st' \<Rightarrow> dispatch e st' chats)
      else dispatch e st chats)"

definition listen_cycle ::
  "env \<Rightarrow> listener \<Rightarrow> datetime \<Rightarrow> exn + (pystr \<times> msg list) list \<Rightarrow> listener outcome" where
  \<comment> \<open>one turn of the loop of lines 266 to 281: \<open>now\<close> is the clock read by the report,
      \<open>fetched\<close> what \<open>GetListenMessage\<close> raises or returns; line 279 catches every
      exception\<close>
  "listen_cycle e st now fetched =
     (let st1 = report_check e st now
      in case fetched of
           Inl err \<Rightarrow> Returns (st1\<lparr>trace := trace st1 @ [Log ERROR, Sleep 5000]\<rparr>)
         | Inr msgs \<Rightarrow>
             (case dispatch e st1 msgs of
                Hangs st2 \<Rightarrow> Hangs st2
              | Raised err st2 \<Rightarrow> Returns (st2\<lparr>trace := trace st2 @ [Log ERROR, Sleep 5000]\<rparr>)
              | Returns st2 \<Rightarrow> Returns (st2\<lparr>trace := trace st2 @ [Sleep (interval st2)]\<rparr>)))"

fun sent_count :: "event list \<Rightarrow> nat" where
  "sent_count [] = 0"
| "sent_count (Sent peer text # tr) = Suc (sent_count tr)"
| "sent_count (_ # tr) = sent_count tr"

fun announcements :: "env \<Rightarrow> listener \<Rightarrow> datetime list \<Rightarrow> datetime list" where
  \<comment> \<open>the clock readings of a sequence at which \<open>report_check\<close> sent a message\<close>
  "announcements e st [] = []"
| "announcements e st (now # nows) =
     (let st' = report_check e st now
      in (if sent_count (trace st') > sent_count (trace st) then [now] else [])
         @ announcements e st' nows)"

fun attempted :: "event list \<Rightarrow> (pystr \<times> pystr) list" where
  \<comment> \<open>the calls of \<open>SendMsg\<close> in a run, whether they returned or raised\<close>
  "attempted [] = []"
| "attempted (Sent peer text # tr) = (peer, text) # attempted tr"
| "attempted (SendFailed peer text # tr) = (peer, text) # attempted tr"
| "attempted (_ # tr) = attempted tr"

fun failures_logged :: "event list \<Rightarrow> bool" where
  \<comment> \<open>every \<open>SendMsg\<close> that raised is followed at once by an error log\<close>
  "failures_logged [] = True"
| "failures_logged (SendFailed peer text # tr) =
     (case tr of Log ERROR # _ \<Rightarrow> failures_logged tr | _ \<Rightarrow> False)"
| "failures_logged (_ # tr) = failures_logged tr"

definition clock_hour :: "datetime \<Rightarrow> nat" where
  \<comment> \<open>the hour of the clock a reading falls in, counted from day 0\<close>
  "clock_hour now = day now * 24 + hour now"

definition fires :: "env \<Rightarrow> listener \<Rightarrow> datetime \<Rightarrow> bool" where
  \<comment> \<open>the condition under which \<open>report_check\<close> at \<open>now\<close> gets a message sent\<close>
  "fires e st now \<longleftrightarrow>
     time_report st \<and> minute now = 0 \<and> second now < 10 \<and>
     int (hour now) \<noteq> last_reported_hour st \<and>
     (case format_report e (time_report_message st) now of
        None \<Rightarrow> False
      | Some message \<Rightarrow> \<not> send_raises e (trace st) (time_report_who st) message)"

subsection \<open>Sample data for the concrete runs\<close>

definition alice :: pystr where
  "alice = [65, 108, 105, 99, 101]"

definition bot :: pystr where
  "bot = [66, 111, 116]"

definition at_clock :: "nat \<Rightarrow> nat \<Rightarrow> nat \<Rightarrow> nat \<Rightarrow> datetime" where
  "at_clock d h mi s = \<lparr>day = d, hour = h, minute = mi, second = s\<rparr>"

definition message_from :: "pystr \<Rightarrow> pystr \<Rightarrow> msg" where
  "message_from who text =
     \<lparr>sender = who, msgtype = FRIEND, content = text, seen_at = at_clock 1 9 30 0\<rparr>"

definition sample_listener :: listener where
  \<comment> \<open>a listener as \<open>__init__\<close> leaves it: watching Alice, own name Bot, reports on\<close>
  "sample_listener =
     \<lparr>listen_list = [alice], interval = 1000, self_name = bot, max_message_length = 2000,
      last_message_time = Map.empty, time_report = True, time_report_who = alice,
      time_report_message = [123, 116, 105, 109, 101, 125], last_reported_hour = - 1,
      trace = []\<rparr>"

definition echo_env :: env where
  \<comment> \<open>a credential is set, the endpoint answers with the message, every send works\<close>
  "echo_env =
     \<lparr>API_KEY = Some [107, 101, 121],
      endpoint = (\<lambda>tr message attempt. Data (Some message)),
      send_raises = (\<lambda>tr peer text. False),
      format_report = (\<lambda>template now. Some [hour now, minute now, second now])\<rparr>"

definition offline_env :: env where
  \<comment> \<open>no credential, and every send raises\<close>
  "offline_env =
     \<lparr>API_KEY = None,
      endpoint = (\<lambda>tr message attempt. Raises RequestException),
      send_raises = (\<lambda>tr peer text. True),
      format_report = (\<lambda>template now. None)\<rparr>"

definition flaky_env :: env where
  \<comment> \<open>as \<open>echo_env\<close>, but sending the reply to the message "2" raises\<close>
  "flaky_env = echo_env\<lparr>send_raises := (\<lambda>tr peer text. text = BANNER @ [NL, 50])\<rparr>"

section \<open>The chunker of send_long_message\<close>

lemma split_loop_concat:
  assumes "split_loop maxlen message parts = Some res"
  shows "concat res = concat parts @ message"
proof (rule split_loop.raw_induct
    [where P = "\<lambda>ml msg ps rs. concat rs = concat ps @ msg", OF _ assms])
  fix f :: "nat \<Rightarrow> pystr \<Rightarrow> pystr list \<Rightarrow> pystr list option"
  fix ml msg ps rs
  assume IH: "\<And>a b c y. f a b c = Some y \<Longrightarrow> concat y = concat c @ b"
  assume body:
    "(if msg \<noteq> [] then
        (if length msg > ml then
           (let split_index = rfind NL msg ml;
                split_index = (if split_index = - 1 then int ml else split_index)
            in f ml (drop (nat split_index) msg) (ps @ [take (nat split_index) msg]))
         else f ml [] (ps @ [msg]))
      else Some ps) = Some rs"
  show "concat rs = concat ps @ msg"
  proof (cases "msg = []")
    case True
    with body show ?thesis by simp
  next
    case nonempty: False
    show ?thesis
    proof (cases "ml < length msg")
      case True
      define k where "k = nat (if rfind NL msg ml = - 1 then int ml else rfind NL msg ml)"
      from body nonempty True
      have "f ml (drop k msg) (ps @ [take k msg]) = Some rs"
        by (simp add: Let_def k_def)
      from IH[OF this] show ?thesis by simp
    next
      case False
      with body nonempty have "f ml [] (ps @ [msg]) = Some rs" by simp
      from IH[OF this] show ?thesis by simp
    qed
  qed
qed

lemma split_loop_stuck:
  assumes long: "maxlen < length message" and zero: "rfind NL message maxlen = 0"
  shows "split_loop maxlen message parts = None"
proof (rule ccontr)
  assume "split_loop maxlen message parts \<noteq> None"
  then obtain res where r: "split_loop maxlen message parts = Some res" by auto
  have "\<not> (maxlen = maxlen \<and> message = message)"
  proof (rule split_loop.raw_induct
      [where P = "\<lambda>ml msg ps rs. \<not> (ml = maxlen \<and> msg = message)", OF _ r])
    fix f :: "nat \<Rightarrow> pystr \<Rightarrow> pystr list \<Rightarrow> pystr list option"
    fix ml msg ps rs
    assume IH: "\<And>a b c y. f a b c = Some y \<Longrightarrow> \<not> (a = maxlen \<and> b = message)"
    assume body:
      "(if msg \<noteq> [] then
          (if length msg > ml then
             (let split_index = rfind NL msg ml;
                  split_index = (if split_index = - 1 then int ml else split_index)
              in f ml (drop (nat split_index) msg) (ps @ [take (nat split_index) msg]))
           else f ml [] (ps @ [msg]))
        else Some ps) = Some rs"
    show "\<not> (ml = maxlen \<and> msg = message)"
    proof
      assume eq: "ml = maxlen \<and> msg = message"
      with long have "msg \<noteq> []" by auto
      with body eq long zero have "f maxlen message (ps @ [[]]) = Some rs"
        by (simp add: Let_def)
      from IH[OF this] show False by simp
    qed
  qed
  then show False by simp
qed

lemma rfind_last:
  assumes "i < e" and "i < length s" and "s ! i = c"
    and later: "\<And>j. i < j \<Longrightarrow> j < e \<Longrightarrow> j < length s \<Longrightarrow> s ! j \<noteq> c"
  shows "rfind c s e = int i"
proof -
  define n where "n = min e (length s)"
  have n: "i < n" using assms(1,2) by (simp add: n_def)
  then have "[0..<n] = [0..<i] @ i # [Suc i..<n]"
    by (metis less_imp_le_nat upt_add_eq_append upt_conv_Cons zero_le le_add_diff_inverse)
  moreover have "filter (\<lambda>j. s ! j = c) (rev [Suc i..<n]) = []"
    using later by (auto simp: filter_empty_conv n_def)
  ultimately have "filter (\<lambda>j. s ! j = c) (rev [0..<n]) =
      i # filter (\<lambda>j. s ! j = c) (rev [0..<i])"
    using assms(3) by simp
  then show ?thesis by (simp add: rfind_def n_def)
qed

lemma rfind_none:
  assumes "c \<notin> set s"
  shows "rfind c s e = - 1"
proof -
  have "filter (\<lambda>j. s ! j = c) (rev [0..<min e (length s)]) = []"
    using assms by (auto simp: filter_empty_conv)
  then show ?thesis by (simp add: rfind_def)
qed

lemma split_loop_no_newline:
  assumes "0 < maxlen" and "NL \<notin> set message"
  shows "\<exists>res. split_loop maxlen message parts = Some res"
  using assms(2)
proof (induction "length message" arbitrary: message parts rule: less_induct)
  case less
  show ?case
  proof (cases "maxlen < length message")
    case True
    have "NL \<notin> set (drop maxlen message)"
      using less.prems by (meson in_set_dropD)
    moreover have "length (drop maxlen message) < length message"
      using True assms(1) by simp
    ultimately obtain res where
      "split_loop maxlen (drop maxlen message) (parts @ [take maxlen message]) = Some res"
      using less.hyps by blast
    moreover have "message \<noteq> []" using True by auto
    ultimately show ?thesis
      using True rfind_none[OF less.prems]
      by (subst split_loop.simps) (simp add: Let_def)
  next
    case False
    then show ?thesis
      by (subst split_loop.simps, subst split_loop.simps) simp
  qed
qed

lemma split_loop_banner_line:
  assumes "length BANNER < maxlen" and "NL \<notin> set reply_content"
    and "maxlen \<le> length reply_content"
  shows "split_loop maxlen (BANNER @ [NL] @ reply_content) [] = None"
proof -
  let ?message = "BANNER @ [NL] @ reply_content"
  have "NL \<notin> set BANNER" by (simp add: BANNER_def NL_def)
  moreover have free: "reply_content ! k \<noteq> NL" if "k < length reply_content" for k
    using assms(2) that nth_mem by metis
  ultimately have "rfind NL ?message maxlen = int (length BANNER)"
    using assms(1) by (intro rfind_last) (auto simp: nth_append)
  moreover have "maxlen < length ?message" using assms(3) by simp
  ultimately have "split_loop maxlen ?message [] = split_loop maxlen (NL # reply_content) [BANNER]"
    by (subst split_loop.simps) (simp add: Let_def)
  moreover have "rfind NL (NL # reply_content) maxlen = 0"
    using assms(1) free by (intro rfind_last[where i = 0, simplified]) (auto simp: nth_Cons')
  moreover have "maxlen < length (NL # reply_content)" using assms(3) by simp
  ultimately show ?thesis by (simp add: split_loop_stuck)
qed


lemma split_loop_step:
  "split_loop maxlen message parts =
     (if message \<noteq> []
      then split_loop maxlen (fst (split_step maxlen (message, parts)))
             (snd (split_step maxlen (message, parts)))
      else Some parts)"
  by (subst split_loop.simps) (simp add: split_step_def Let_def)

lemma split_step_concat:
  "concat (snd (split_step maxlen s)) @ fst (split_step maxlen s) = concat (snd s) @ fst s"
  by (cases s) (simp add: split_step_def Let_def)

lemma split_upto_concat:
  "concat (snd (split_upto k maxlen s)) @ fst (split_upto k maxlen s) = concat (snd s) @ fst s"
  by (induction k arbitrary: s) (simp_all add: split_step_concat)

lemma split_upto_returns:
  "split_upto k maxlen (message, parts) = ([], res) \<Longrightarrow>
     split_loop maxlen message parts = Some res"
proof (induction k arbitrary: message parts)
  case 0
  then show ?case by (simp add: split_loop.simps)
next
  case (Suc k)
  show ?case
  proof (cases "message = []")
    case True
    with Suc.prems show ?thesis by (simp add: split_loop.simps)
  next
    case False
    with Suc.prems have "split_upto k maxlen (split_step maxlen (message, parts)) = ([], res)"
      by simp
    then have "split_loop maxlen (fst (split_step maxlen (message, parts)))
        (snd (split_step maxlen (message, parts))) = Some res"
      using Suc.IH[of "fst (split_step maxlen (message, parts))"
          "snd (split_step maxlen (message, parts))"] by simp
    with False show ?thesis by (subst split_loop_step) simp
  qed
qed

lemma split_loop_reaches:
  assumes "split_loop maxlen message parts = Some res"
  shows "\<exists>k. split_upto k maxlen (message, parts) = ([], res)"
proof (rule split_loop.raw_induct
    [where P = "\<lambda>ml msg ps rs. \<exists>k. split_upto k ml (msg, ps) = ([], rs)", OF _ assms])
  fix f :: "nat \<Rightarrow> pystr \<Rightarrow> pystr list \<Rightarrow> pystr list option"
  fix ml msg ps rs
  assume IH: "\<And>a b c y. f a b c = Some y \<Longrightarrow> \<exists>k. split_upto k a (b, c) = ([], y)"
  assume body:
    "(if msg \<noteq> [] then
        (if length msg > ml then
           (let split_index = rfind NL msg ml;
                split_index = (if split_index = - 1 then int ml else split_index)
            in f ml (drop (nat split_index) msg) (ps @ [take (nat split_index) msg]))
         else f ml [] (ps @ [msg]))
      else Some ps) = Some rs"
  show "\<exists>k. split_upto k ml (msg, ps) = ([], rs)"
  proof (cases "msg = []")
    case True
    with body have "split_upto 0 ml (msg, ps) = ([], rs)" by simp
    then show ?thesis by blast
  next
    case False
    with body have "f ml (fst (split_step ml (msg, ps))) (snd (split_step ml (msg, ps))) = Some rs"
      by (simp add: split_step_def Let_def split: if_splits)
    from IH[OF this] obtain k where
      "split_upto k ml (split_step ml (msg, ps)) = ([], rs)" by auto
    with False have "split_upto (Suc k) ml (msg, ps) = ([], rs)" by simp
    then show ?thesis by blast
  qed
qed

lemma attempted_append: "attempted (xs @ ys) = attempted xs @ attempted ys"
  by (induction xs rule: attempted.induct) simp_all

lemma attempted_send_parts:
  "attempted (send_parts e peer tr xs) =
     attempted tr @ map (\<lambda>(i, part). (peer, strip_banner i part)) xs"
proof (induction xs arbitrary: tr)
  case Nil
  then show ?case by simp
next
  case (Cons x xs)
  obtain i part where x: "x = (i, part)" by (cases x)
  show ?case
    by (cases "send_raises e tr peer (strip_banner i part)")
      (simp_all add: x SendMsg_def Cons.IH attempted_append)
qed

text \<open>
  What holds of the splitting loop on every text and every maximal length: at every turn
  the segments cut so far, followed by the text still to be cut, are the reply text; the
  loop hands over its segments exactly when some number of turns empties the text, and
  then they concatenate, in order, to the reply text, and the texts given to \<open>SendMsg\<close>
  are these segments with the banner line removed from the segments after the first.
\<close>

lemma split_loop_segments:
  "concat (snd (split_upto k maxlen (message, []))) @ fst (split_upto k maxlen (message, [])) =
     message \<and>
   (split_loop maxlen message [] = Some parts \<longrightarrow>
      (\<exists>n. split_upto n maxlen (message, []) = ([], parts)) \<and>
      concat parts = message \<and>
      attempted (send_parts e peer tr (enumerate 0 parts)) =
        attempted tr @ map (\<lambda>(i, part). (peer, strip_banner i part)) (enumerate 0 parts))"
  using split_upto_concat[of k maxlen "(message, [])"] split_loop_concat[of maxlen message "[]" parts]
    split_loop_reaches[of maxlen message "[]" parts]
  by (simp add: attempted_send_parts)

lemma split_loop_segments_example:
  "split_upto 1 20 (BANNER @ [NL] @ BANNER @ [NL, 97], []) = (NL # BANNER @ [NL, 97], [BANNER]) \<and>
   concat [BANNER] @ (NL # BANNER @ [NL, 97]) = BANNER @ [NL] @ BANNER @ [NL, 97] \<and>
   split_loop 20 (BANNER @ [NL] @ BANNER @ [NL, 97]) [] = Some [BANNER, NL # BANNER @ [NL, 97]] \<and>
   concat [BANNER, NL # BANNER @ [NL, 97]] = BANNER @ [NL] @ BANNER @ [NL, 97] \<and>
   attempted
     (send_parts
        \<lparr>API_KEY = None, endpoint = (\<lambda>tr message attempt. Data None),
            send_raises = (\<lambda>tr peer text. False), format_report = (\<lambda>template now. None)\<rparr>
        [65] [] (enumerate 0 [BANNER, NL # BANNER @ [NL, 97]])) =
     [([65], BANNER), ([65], [NL, 97])]"
proof -
  have run: "split_loop 20 (BANNER @ [NL] @ BANNER @ [NL, 97]) [] =
      Some [BANNER, NL # BANNER @ [NL, 97]]"
    by (simp add: split_loop.simps rfind_def BANNER_def NL_def Let_def)
  have one: "split_upto 1 20 (BANNER @ [NL] @ BANNER @ [NL, 97], []) =
      (NL # BANNER @ [NL, 97], [BANNER])"
    by (simp add: split_step_def rfind_def BANNER_def NL_def Let_def)
  have "strip_banner 1 (NL # BANNER @ [NL, 97]) = [NL, 97]"
    by (simp add: strip_banner_def BANNER_def NL_def sublist_code prefix_code)
  moreover have "strip_banner 0 BANNER = BANNER"
    by (simp add: strip_banner_def)
  ultimately show ?thesis
    using split_loop_segments
      [of 1 20 "BANNER @ [NL] @ BANNER @ [NL, 97]" "[BANNER, NL # BANNER @ [NL, 97]]" _
          "[65]" "[]"] run one
    by (simp add: enumerate_eq_zip upt_rec)
qed

text \<open>
  C1. The segments of a reply do not always come: with the default maximal length of
  2000, on a generated reply (banner, line feed, text) whose text is one line of 2000
  characters \<open>send_long_message\<close> never leaves its splitting loop. It hands over no
  segment and sends nothing, so there is nothing that concatenates to the reply text.
\<close>

theorem send_long_message_hangs:
  "send_long_message e 2000 tr peer (BANNER @ [NL] @ replicate 2000 97) = Hangs tr"
proof -
  have "split_loop 2000 (BANNER @ [NL] @ replicate 2000 97) [] = None"
    by (rule split_loop_banner_line) (simp_all add: BANNER_def NL_def)
  then show ?thesis by (simp add: send_long_message_def)
qed

text \<open>
  C2. The splitting loop does not end on every text. With the default maximal length of
  2000, a generated reply (banner, line feed, text) whose text is one line of 2000
  characters is cut after the banner, and the rest begins with the line feed that
  \<open>rfind\<close> then finds at index 0: the segment is empty, the rest is unchanged, and the
  loop runs forever.
\<close>

theorem split_loop_hangs:
  "split_loop 2000 (BANNER @ [NL] @ replicate 2000 97) [] = None"
  by (rule split_loop_banner_line) (simp_all add: BANNER_def NL_def)

section \<open>The completion client\<close>

lemma post_attempts_append: "post_attempts (xs @ ys) = post_attempts xs @ post_attempts ys"
  by (induction xs rule: post_attempts.induct) simp_all

lemma range_retries: "0 \<le> retries \<Longrightarrow> map nat [0..retries] = [0..<Suc (nat retries)]"
proof (induction "nat retries" arbitrary: retries)
  case 0
  then show ?case by (simp add: upto.simps)
next
  case (Suc n)
  then have "[0..retries] = [0..retries - 1] @ [retries]"
    by (simp add: upto_rec2)
  moreover have "map nat [0..retries - 1] = [0..<Suc (nat (retries - 1))]"
    using Suc by (intro Suc.hyps) auto
  moreover have "Suc (nat (retries - 1)) = nat retries" using Suc by auto
  ultimately show ?case by simp
qed

lemma range_negative: "retries < 0 \<Longrightarrow> map nat [0..retries] = []"
  by (simp add: upto.simps)

lemma attempts_returns: "\<exists>s. fst (attempts ep retries as) = Inr s"
proof (induction as)
  case Nil
  then show ?case by simp
next
  case (Cons attempt rest)
  then show ?case
    by (cases "ep attempt")
      (auto simp: Let_def split: exn.splits option.splits prod.splits)
qed

lemma attempts_all_timeout:
  assumes "\<And>a. ep a = Raises Timeout" and "k \<le> r"
  shows "fst (attempts ep (int r) [k..<Suc r]) = Inr MSG_TIMEOUT \<and>
         post_attempts (snd (attempts ep (int r) [k..<Suc r])) = [k..<Suc r]"
  using assms(2)
proof (induction "r - k" arbitrary: k)
  case 0
  then have "[k..<Suc r] = [r]" by (simp add: upt_rec)
  then show ?case using assms(1) by (simp del: upt_Suc add: Let_def)
next
  case (Suc n)
  then have "[k..<Suc r] = k # [Suc k..<Suc r]" and "k < r" by (simp_all add: upt_rec)
  moreover have "fst (attempts ep (int r) [Suc k..<Suc r]) = Inr MSG_TIMEOUT \<and>
      post_attempts (snd (attempts ep (int r) [Suc k..<Suc r])) = [Suc k..<Suc r]"
    using Suc by (intro Suc.hyps) auto
  ultimately show ?case
    using assms(1) by (auto simp del: upt_Suc simp add: Let_def split: prod.splits)
qed

lemma attempts_no_choices:
  assumes "\<And>j. j < k \<Longrightarrow> ep j = Raises Timeout \<or> ep j = Raises RequestException"
    and "ep k = Data None" and "k \<le> r" and "i \<le> k"
  shows "fst (attempts ep (int r) [i..<Suc r]) = Inr MSG_THINKING \<and>
         post_attempts (snd (attempts ep (int r) [i..<Suc r])) = [i..<Suc k]"
  using assms(4)
proof (induction "k - i" arbitrary: i)
  case 0
  then have "i = k" by simp
  then have "[i..<Suc r] = k # [Suc k..<Suc r]" using assms(3) by (simp add: upt_rec)
  moreover have "[k..<Suc k] = [k]" by simp
  ultimately show ?case using assms(2) \<open>i = k\<close> by (simp del: upt_Suc add: Let_def)
next
  case (Suc n)
  then have i: "i < k" by simp
  then have "[i..<Suc r] = i # [Suc i..<Suc r]" using assms(3) by (simp add: upt_rec)
  moreover have "fst (attempts ep (int r) [Suc i..<Suc r]) = Inr MSG_THINKING \<and>
      post_attempts (snd (attempts ep (int r) [Suc i..<Suc r])) = [Suc i..<Suc k]"
    using Suc by (intro Suc.hyps) auto
  moreover have "[i..<Suc k] = i # [Suc i..<Suc k]" using i by (simp add: upt_rec)
  moreover have "int i < int r" using i assms(3) by simp
  ultimately show ?case
    using assms(1)[OF i] by (auto simp del: upt_Suc simp add: Let_def split: prod.splits)
qed


lemma attempts_not_unavailable:
  assumes "i \<le> r"
  shows "fst (attempts ep (int r) [i..<Suc r]) \<noteq> Inr MSG_UNAVAILABLE"
  using assms
proof (induction "r - i" arbitrary: i)
  case 0
  then have "[i..<Suc r] = [r]" by (simp add: upt_rec)
  then show ?case
    by (cases "ep r")
      (auto simp del: upt_Suc
        simp add: Let_def MSG_UNAVAILABLE_def MSG_THINKING_def MSG_TIMEOUT_def
          MSG_NETWORK_def MSG_PROCESSING_def BANNER_def
        split: exn.splits option.splits)
next
  case (Suc n)
  then have "[i..<Suc r] = i # [Suc i..<Suc r]" and "i < r" by (simp_all add: upt_rec)
  moreover have "fst (attempts ep (int r) [Suc i..<Suc r]) \<noteq> Inr MSG_UNAVAILABLE"
    using Suc by (intro Suc.hyps) auto
  ultimately show ?case
    by (cases "ep i")
      (auto simp del: upt_Suc
        simp add: Let_def MSG_UNAVAILABLE_def MSG_THINKING_def MSG_TIMEOUT_def
          MSG_NETWORK_def MSG_PROCESSING_def BANNER_def
        split: exn.splits option.splits prod.splits)
qed

lemma get_reply_unavailable_iff:
  assumes "api_key \<noteq> None" and "api_key \<noteq> Some []"
  shows "fst (get_reply api_key ep message retries) = Inr MSG_UNAVAILABLE \<longleftrightarrow> retries < 0"
proof (cases "retries < 0")
  case True
  then show ?thesis
    using assms by (cases api_key) (simp_all add: get_reply_def range_negative)
next
  case False
  then have "get_reply api_key ep message retries =
      attempts (ep message) (int (nat retries)) [0..<Suc (nat retries)]"
    using assms by (cases api_key) (simp_all del: upt_Suc add: get_reply_def range_retries)
  then show ?thesis
    using False attempts_not_unavailable[of 0 "nat retries" "ep message"] by simp
qed

text \<open>
  C3 (as amended). \<open>get_reply\<close> never raises. With a credential and \<open>retries \<ge> 0\<close>, an
  endpoint that times out on every attempt is tried exactly \<open>retries + 1\<close> times, with
  attempt numbers \<open>0, ..., retries\<close>, and the value returned after the last attempt is
  the "request timed out" string of line 124. With a credential, whatever the endpoint
  does, the "service temporarily unavailable" string of line 138 is returned exactly
  when \<open>retries < 0\<close>, that is, when no attempt is made.
\<close>

theorem get_reply_all_timeouts:
  assumes "api_key \<noteq> None" and "api_key \<noteq> Some []" and "0 \<le> retries"
    and "\<forall>attempt. ep message attempt = Raises Timeout"
  shows "fst (get_reply api_key ep message retries) = Inr MSG_TIMEOUT \<and>
         post_attempts (snd (get_reply api_key ep message retries)) = [0..<nat (retries + 1)] \<and>
         length (post_attempts (snd (get_reply api_key ep message retries))) = nat (retries + 1) \<and>
         (\<exists>s. fst (get_reply api_key' ep' message' retries') = Inr s) \<and>
         (fst (get_reply api_key ep2 message2 retries2) = Inr MSG_UNAVAILABLE \<longleftrightarrow>
            retries2 < 0)"
proof -
  have "nat (retries + 1) = Suc (nat retries)" using assms(3) by simp
  moreover have "int (nat retries) = retries" using assms(3) by simp
  moreover have "get_reply api_key ep message retries =
      attempts (ep message) retries [0..<Suc (nat retries)]"
    using assms(1,2,3) by (cases api_key) (simp_all del: upt_Suc add: get_reply_def range_retries)
  ultimately have "fst (get_reply api_key ep message retries) = Inr MSG_TIMEOUT"
    and "post_attempts (snd (get_reply api_key ep message retries)) = [0..<nat (retries + 1)]"
    using attempts_all_timeout[of "ep message" 0 "nat retries"] assms(4)
    by (simp_all del: upt_Suc)
  moreover have "\<exists>s. fst (get_reply api_key' ep' message' retries') = Inr s"
    by (simp add: get_reply_def attempts_returns)
  moreover note get_reply_unavailable_iff[OF assms(1,2), of ep2 message2 retries2]
  ultimately show ?thesis by simp
qed

theorem get_reply_all_timeouts_witness:
  "fst (get_reply (Some [107]) (\<lambda>message attempt. Raises Timeout) [104, 105] 2) = Inr MSG_TIMEOUT \<and>
   post_attempts (snd (get_reply (Some [107]) (\<lambda>message attempt. Raises Timeout) [104, 105] 2)) =
     [0, 1, 2] \<and>
   (\<exists>s. fst (get_reply None (\<lambda>message attempt. Raises OtherException) [] 0) = Inr s) \<and>
   fst (get_reply (Some [107]) (\<lambda>message attempt. Raises Timeout) [104, 105] (- 1)) =
     Inr MSG_UNAVAILABLE"
  using get_reply_all_timeouts
    [of "Some [107]" 2 "\<lambda>message attempt. Raises Timeout" "[104, 105]"
        None "\<lambda>message attempt. Raises OtherException" "[]" 0
        "\<lambda>message attempt. Raises Timeout" "[104, 105]" "- 1"]
  by (simp add: upt_rec)

theorem get_reply_unavailable_counterexample:
  "fst (get_reply (Some [107]) (\<lambda>message attempt. Raises Timeout) [104, 105] 2) \<noteq>
     Inr MSG_UNAVAILABLE"
  by (simp add: get_reply_def upto.simps Let_def MSG_TIMEOUT_def MSG_UNAVAILABLE_def)

text \<open>
  C8. When an attempt gets data without usable \<open>choices\<close>, after earlier attempts that
  timed out or failed on the network, \<open>get_reply\<close> returns the "still thinking" string
  and no later attempt is made: the attempts are exactly those up to this one.
\<close>

theorem get_reply_no_choices:
  assumes "api_key \<noteq> None" and "api_key \<noteq> Some []" and "int k \<le> retries"
    and "\<forall>j<k. ep message j = Raises Timeout \<or> ep message j = Raises RequestException"
    and "ep message k = Data None"
  shows "fst (get_reply api_key ep message retries) = Inr MSG_THINKING \<and>
         post_attempts (snd (get_reply api_key ep message retries)) = [0..<Suc k]"
proof -
  have "int (nat retries) = retries" and "k \<le> nat retries" using assms(3) by simp_all
  moreover have "get_reply api_key ep message retries =
      attempts (ep message) retries [0..<Suc (nat retries)]"
    using assms(1,2,3) by (cases api_key) (simp_all del: upt_Suc add: get_reply_def range_retries)
  ultimately show ?thesis
    using attempts_no_choices[of k "ep message" "nat retries" 0] assms(4,5)
    by (simp del: upt_Suc)
qed

theorem get_reply_no_choices_witness:
  "fst (get_reply (Some [107]) (\<lambda>message attempt. if attempt = 0 then Raises Timeout else Data None)
         [104, 105] 2) = Inr MSG_THINKING \<and>
   post_attempts (snd (get_reply (Some [107])
         (\<lambda>message attempt. if attempt = 0 then Raises Timeout else Data None) [104, 105] 2)) =
     [0, 1]"
  using get_reply_no_choices
    [of "Some [107]" 1 2 "\<lambda>message attempt. if attempt = 0 then Raises Timeout else Data None"
        "[104, 105]"]
  by (simp add: upt_rec)

text \<open>
  C10. Without a credential (\<open>API_KEY\<close> is \<open>None\<close> or the empty string), \<open>get_reply\<close>
  returns the "not configured" string for every message, and the only thing it does is
  log an error: there is no request.
\<close>

theorem get_reply_not_configured:
  assumes "api_key = None \<or> api_key = Some []"
  shows "get_reply api_key ep message retries = (Inr MSG_NOT_CONFIGURED, [Log ERROR]) \<and>
         post_attempts (snd (get_reply api_key ep message retries)) = []"
  using assms by (auto simp: get_reply_def)

theorem get_reply_not_configured_witness:
  "get_reply None (\<lambda>message attempt. Data (Some [111, 107])) [104, 105] 2 =
     (Inr MSG_NOT_CONFIGURED, [Log ERROR])"
  using get_reply_not_configured
    [of None "\<lambda>message attempt. Data (Some [111, 107])" "[104, 105]" 2]
  by simp

section \<open>The filter and the reply of process_message\<close>

lemma process_message_never_raises: "process_message e st peer m \<noteq> Raised err st'"
  by (auto simp: process_message_def Let_def split: outcome.splits)

lemma process_all_never_raises: "process_all e st peer ms \<noteq> Raised err st'"
proof (induction ms arbitrary: st)
  case Nil
  then show ?case by simp
next
  case (Cons m ms)
  then show ?case
    using process_message_never_raises[of e st peer m]
    by (auto split: outcome.splits)
qed

lemma dispatch_never_raises: "dispatch e st chats \<noteq> Raised err st'"
proof (induction chats arbitrary: st)
  case Nil
  then show ?case by simp
next
  case (Cons c chats)
  obtain peer one_msgs where c: "c = (peer, one_msgs)" by (cases c)
  from Cons show ?case
    using process_all_never_raises[of e st peer one_msgs]
    by (auto simp: c split: outcome.splits)
qed

lemma listen_cycle_never_raises: "listen_cycle e st now fetched \<noteq> Raised err st'"
  by (auto simp: listen_cycle_def Let_def split: sum.splits outcome.splits)

lemma listen_cycle_continues:
  assumes "dispatch e (report_check e st now) msgs = Returns st2"
  shows "listen_cycle e st now (Inr msgs) =
           Returns (st2\<lparr>trace := trace st2 @ [Sleep (interval st2)]\<rparr>)"
  using assms by (simp add: listen_cycle_def)

lemma process_all_next:
  assumes "process_message e st peer m = Returns st'"
  shows "process_all e st peer (m # ms) = process_all e st' peer ms"
  using assms by simp

lemma attempted_attempts: "attempted (snd (attempts ep retries as)) = []"
proof (induction as)
  case Nil
  then show ?case by simp
next
  case (Cons attempt rest)
  then show ?case
    by (cases "ep attempt")
      (auto simp: Let_def attempted_append split: exn.splits option.splits prod.splits)
qed

lemma attempted_get_reply: "attempted (snd (get_reply api_key ep message retries)) = []"
  by (simp add: get_reply_def attempted_attempts)

lemma failures_logged_sent:
  "failures_logged ([Sent peer text, Log INFO, Sleep 500] @ new) = failures_logged new"
  "failures_logged ([SendFailed peer text, Log ERROR] @ new) = failures_logged new"
  by simp_all

lemma send_parts_events:
  "\<exists>new. send_parts e peer tr xs = tr @ new \<and>
          attempted new = map (\<lambda>(i, part). (peer, strip_banner i part)) xs \<and>
          failures_logged new"
proof (induction xs arbitrary: tr)
  case Nil
  then show ?case by simp
next
  case (Cons x xs)
  obtain i part where x: "x = (i, part)" by (cases x)
  show ?case
  proof (cases "send_raises e tr peer (strip_banner i part)")
    case True
    from Cons.IH[of "tr @ [SendFailed peer (strip_banner i part), Log ERROR]"]
    obtain new where new:
      "send_parts e peer (tr @ [SendFailed peer (strip_banner i part), Log ERROR]) xs =
         (tr @ [SendFailed peer (strip_banner i part), Log ERROR]) @ new"
      "attempted new = map (\<lambda>(i, part). (peer, strip_banner i part)) xs"
      "failures_logged new"
      by blast
    let ?new = "[SendFailed peer (strip_banner i part), Log ERROR] @ new"
    have "send_parts e peer tr (x # xs) = tr @ ?new"
      using True new(1) by (simp add: x SendMsg_def)
    moreover have "attempted ?new = map (\<lambda>(i, part). (peer, strip_banner i part)) (x # xs)"
      using new(2) by (simp add: x)
    moreover have "failures_logged ?new"
      using new(3) by (simp only: failures_logged_sent)
    ultimately show ?thesis by blast
  next
    case False
    from Cons.IH[of "tr @ [Sent peer (strip_banner i part), Log INFO, Sleep 500]"]
    obtain new where new:
      "send_parts e peer (tr @ [Sent peer (strip_banner i part), Log INFO, Sleep 500]) xs =
         (tr @ [Sent peer (strip_banner i part), Log INFO, Sleep 500]) @ new"
      "attempted new = map (\<lambda>(i, part). (peer, strip_banner i part)) xs"
      "failures_logged new"
      by blast
    let ?new = "[Sent peer (strip_banner i part), Log INFO, Sleep 500] @ new"
    have "send_parts e peer tr (x # xs) = tr @ ?new"
      using False new(1) by (simp add: x SendMsg_def)
    moreover have "attempted ?new = map (\<lambda>(i, part). (peer, strip_banner i part)) (x # xs)"
      using new(2) by (simp add: x)
    moreover have "failures_logged ?new"
      using new(3) by (simp only: failures_logged_sent)
    ultimately show ?thesis by blast
  qed
qed

lemma run_accept:
  "process_message echo_env sample_listener alice (message_from alice [104, 105]) =
     Returns (sample_listener
       \<lparr>last_message_time := [alice \<mapsto> at_clock 1 9 30 0],
        trace := [Log INFO, Log INFO, Post 0 15, Log INFO,
                  Sent alice (BANNER @ [NL, 104, 105]), Log INFO]\<rparr>)"
  by (simp add: process_message_def reply_to_def get_reply_def SendMsg_def Let_def
      upto.simps echo_env_def sample_listener_def message_from_def alice_def bot_def
      skip_keywords_def FRIEND_def BANNER_def NL_def sublist_code prefix_code)

lemma split_not_configured:
  "split_loop 10 MSG_NOT_CONFIGURED [] =
     Some [take 10 MSG_NOT_CONFIGURED, drop 10 MSG_NOT_CONFIGURED]"
  by (simp add: split_loop.simps rfind_def MSG_NOT_CONFIGURED_def NL_def Let_def)

lemma flaky_reply:
  "get_reply (API_KEY flaky_env) (endpoint flaky_env (trace sample_listener @ [Log INFO]))
      (content (message_from alice [50])) 2 =
   (Inr (BANNER @ [NL, 50]), [Log INFO, Post 0 15])"
  by (simp add: get_reply_def upto.simps Let_def flaky_env_def echo_env_def message_from_def)

lemma offline_reply:
  "get_reply (API_KEY offline_env)
      (endpoint offline_env (trace (sample_listener\<lparr>max_message_length := 10\<rparr>) @ [Log INFO]))
      (content (message_from alice [104, 105])) 2 =
   (Inr MSG_NOT_CONFIGURED, [Log ERROR])"
  by (simp add: get_reply_def offline_env_def)

lemma not_system_phrase:
  "\<not> list_ex (\<lambda>keyword. sublist keyword (content (message_from alice [50]))) skip_keywords"
  "\<not> list_ex (\<lambda>keyword. sublist keyword (content (message_from alice [104, 105]))) skip_keywords"
  by (simp_all add: skip_keywords_def message_from_def sublist_code prefix_code)

text \<open>
  C4. A message whose sender is the listener's own name ends \<open>process_message\<close> at
  once, whatever the watch list and the content: the listener is unchanged but for one
  log line, there is no request to the completion endpoint and no \<open>SendMsg\<close>.
\<close>

theorem self_message_ignored:
  assumes "sender m = self_name st"
  shows "process_message e st peer m = Returns (st\<lparr>trace := trace st @ [Log INFO]\<rparr>) \<and>
         post_attempts (trace st @ [Log INFO]) = post_attempts (trace st) \<and>
         attempted (trace st @ [Log INFO]) = attempted (trace st)"
  using assms by (simp add: process_message_def post_attempts_append attempted_append)

theorem self_message_ignored_witness:
  "process_message echo_env sample_listener alice (message_from bot [104, 105]) =
     Returns (sample_listener\<lparr>trace := [Log INFO]\<rparr>)"
  using self_message_ignored
    [of "message_from bot [104, 105]" sample_listener echo_env alice]
  by (simp add: message_from_def sample_listener_def)

text \<open>
  C5 (as amended). For every message that is not the listener's own, whether it is then
  answered or rejected (system phrase, wrong type, peer not watched), and whether or not
  the call ever returns, \<open>process_message\<close> leaves \<open>last_message_time\<close> of the peer at
  the time the message was seen; for a message of the listener's own,
  \<open>last_message_time\<close> is unchanged.
\<close>

theorem last_seen_update:
  "last_message_time (reached (process_message e st peer m)) =
     (if sender m = self_name st then last_message_time st
      else (last_message_time st)(peer \<mapsto> seen_at m))"
  by (auto simp: process_message_def Let_def split: outcome.splits)

theorem last_seen_update_witness:
  "process_message echo_env sample_listener alice (message_from alice [104, 105]) =
     Returns (sample_listener
       \<lparr>last_message_time := [alice \<mapsto> at_clock 1 9 30 0],
        trace := [Log INFO, Log INFO, Post 0 15, Log INFO,
                  Sent alice (BANNER @ [NL, 104, 105]), Log INFO]\<rparr>) \<and>
   last_message_time
     (reached (process_message echo_env sample_listener alice (message_from alice [104, 105])))
     alice = Some (at_clock 1 9 30 0) \<and>
   last_message_time
     (reached (process_message echo_env sample_listener alice
        (message_from alice (replicate 2000 97))))
     alice = Some (at_clock 1 9 30 0)"
  using last_seen_update[of echo_env sample_listener alice "message_from alice [104, 105]"]
    last_seen_update[of echo_env sample_listener alice "message_from alice (replicate 2000 97)"]
    run_accept
  by (simp add: message_from_def sample_listener_def alice_def bot_def)

theorem last_seen_self_counterexample:
  "process_message echo_env sample_listener alice (message_from bot [104, 105]) =
     Returns (sample_listener\<lparr>trace := [Log INFO]\<rparr>) \<and>
   last_message_time (sample_listener\<lparr>trace := [Log INFO]\<rparr>) alice = None"
  by (simp add: process_message_def message_from_def sample_listener_def)

text \<open>
  C9. A message whose content contains one of the four phrases of \<open>skip_keywords\<close> is
  rejected, whoever sent it and whatever its type and peer: \<open>process_message\<close>
  returns, with no request to the completion endpoint and no \<open>SendMsg\<close>.
\<close>

theorem system_phrase_rejected:
  assumes "list_ex (\<lambda>keyword. sublist keyword (content m)) skip_keywords"
  shows "\<exists>st'. process_message e st peer m = Returns st' \<and>
           post_attempts (trace st') = post_attempts (trace st) \<and>
           attempted (trace st') = attempted (trace st)"
  using assms by (simp add: process_message_def post_attempts_append attempted_append Let_def)

theorem system_phrase_rejected_witness:
  "\<exists>st'. process_message echo_env sample_listener alice
            (message_from alice [104, 25910, 21040, 35831, 22238, 22797, 105]) =
            Returns st' \<and>
          post_attempts (trace st') = [] \<and> attempted (trace st') = []"
proof -
  have "list_ex
      (\<lambda>keyword. sublist keyword
         (content (message_from alice [104, 25910, 21040, 35831, 22238, 22797, 105])))
      skip_keywords"
    by (simp add: skip_keywords_def message_from_def sublist_code prefix_code)
  from system_phrase_rejected[OF this, of echo_env sample_listener alice]
  show ?thesis by (simp add: sample_listener_def)
qed

text \<open>
  C6 (as amended). For a message that passes the filter: if the reply fits in one
  message and sending it raises, \<open>process_message\<close> logs the error, tries once to send
  the apology (whether or not that works), returns, and the loop goes on with the next
  message of the batch; if the reply is sent in segments, every segment is tried, each
  segment that fails is logged at once by \<open>send_long_message\<close>, no apology is sent,
  \<open>process_message\<close> returns and the loop goes on with the next message. No
  exception ever leaves \<open>process_message\<close>, the loops over the batch, or a turn of the
  listening loop.
\<close>

theorem send_failure_isolated:
  assumes "sender m \<noteq> self_name st"
    and "\<not> list_ex (\<lambda>keyword. sublist keyword (content m)) skip_keywords"
    and "msgtype m = FRIEND" and "peer \<in> set (listen_list st)"
    and "get_reply (API_KEY e) (endpoint e (trace st @ [Log INFO])) (content m) 2 =
           (Inr api_reply, evs)"
    and "tr = trace st @ [Log INFO] @ evs @ [Log INFO]"
  shows
    "(length api_reply \<le> max_message_length st \<and> send_raises e tr peer api_reply \<longrightarrow>
        (\<exists>st'. process_message e st peer m = Returns st' \<and>
           trace st' = tr @ [SendFailed peer api_reply, Log ERROR,
             if send_raises e (tr @ [SendFailed peer api_reply, Log ERROR]) peer MSG_APOLOGY
             then SendFailed peer MSG_APOLOGY else Sent peer MSG_APOLOGY] \<and>
           process_all e st peer (m # ms) = process_all e st' peer ms)) \<and>
     (max_message_length st < length api_reply \<and>
      split_loop (max_message_length st) api_reply [] = Some parts \<longrightarrow>
        (\<exists>st' new. process_message e st peer m = Returns st' \<and>
           trace st' = tr @ new \<and>
           attempted new = map (\<lambda>(i, part). (peer, strip_banner i part)) (enumerate 0 parts) \<and>
           failures_logged new \<and>
           process_all e st peer (m # ms) = process_all e st' peer ms)) \<and>
     (\<forall>err st'. process_message e st peer m \<noteq> Raised err st') \<and>
     (\<forall>err st'. process_all e st1 peer1 ms1 \<noteq> Raised err st') \<and>
     (\<forall>err st'. dispatch e st1 chats \<noteq> Raised err st') \<and>
     (\<forall>err st'. listen_cycle e st1 now fetched \<noteq> Raised err st')"
proof (intro conjI impI allI)
  assume short: "length api_reply \<le> max_message_length st \<and> send_raises e tr peer api_reply"
  let ?out = "if send_raises e (tr @ [SendFailed peer api_reply, Log ERROR]) peer MSG_APOLOGY
      then SendFailed peer MSG_APOLOGY else Sent peer MSG_APOLOGY"
  let ?st' = "st\<lparr>last_message_time := (last_message_time st)(peer \<mapsto> seen_at m),
      trace := tr @ [SendFailed peer api_reply, Log ERROR, ?out]\<rparr>"
  have run: "process_message e st peer m = Returns ?st'"
    using assms short
    by (simp add: process_message_def reply_to_def SendMsg_def Let_def)
  then show "\<exists>st'. process_message e st peer m = Returns st' \<and>
      trace st' = tr @ [SendFailed peer api_reply, Log ERROR, ?out] \<and>
      process_all e st peer (m # ms) = process_all e st' peer ms"
    by simp
next
  assume long: "max_message_length st < length api_reply \<and>
      split_loop (max_message_length st) api_reply [] = Some parts"
  obtain new where new: "send_parts e peer tr (enumerate 0 parts) = tr @ new"
    "attempted new = map (\<lambda>(i, part). (peer, strip_banner i part)) (enumerate 0 parts)"
    "failures_logged new"
    using send_parts_events[of e peer tr "enumerate 0 parts"] by blast
  let ?st' = "st\<lparr>last_message_time := (last_message_time st)(peer \<mapsto> seen_at m),
      trace := tr @ new\<rparr>"
  have run: "process_message e st peer m = Returns ?st'"
    using assms long new(1)
    by (simp add: process_message_def reply_to_def send_long_message_def Let_def)
  have "process_message e st peer m = Returns ?st' \<and> trace ?st' = tr @ new \<and>
      attempted new = map (\<lambda>(i, part). (peer, strip_banner i part)) (enumerate 0 parts) \<and>
      failures_logged new \<and>
      process_all e st peer (m # ms) = process_all e ?st' peer ms"
    using run new(2,3) by simp
  then show "\<exists>st' new. process_message e st peer m = Returns st' \<and>
      trace st' = tr @ new \<and>
      attempted new = map (\<lambda>(i, part). (peer, strip_banner i part)) (enumerate 0 parts) \<and>
      failures_logged new \<and>
      process_all e st peer (m # ms) = process_all e st' peer ms"
    by blast
next
  fix err st'
  show "process_message e st peer m \<noteq> Raised err st'"
    by (rule process_message_never_raises)
next
  fix err st'
  show "process_all e st1 peer1 ms1 \<noteq> Raised err st'"
    by (rule process_all_never_raises)
next
  fix err st'
  show "dispatch e st1 chats \<noteq> Raised err st'"
    by (rule dispatch_never_raises)
next
  fix err st'
  show "listen_cycle e st1 now fetched \<noteq> Raised err st'"
    by (rule listen_cycle_never_raises)
qed

theorem send_failure_isolated_witness:
  "(\<exists>st'. process_message flaky_env sample_listener alice (message_from alice [50]) =
            Returns st' \<and>
          trace st' = [Log INFO, Log INFO, Post 0 15, Log INFO,
                       SendFailed alice (BANNER @ [NL, 50]), Log ERROR,
                       Sent alice MSG_APOLOGY] \<and>
          process_all flaky_env sample_listener alice
              [message_from alice [50], message_from alice [51]] =
            process_all flaky_env st' alice [message_from alice [51]]) \<and>
   (\<exists>st' new. process_message offline_env (sample_listener\<lparr>max_message_length := 10\<rparr>) alice
            (message_from alice [104, 105]) = Returns st' \<and>
          trace st' = [Log INFO, Log ERROR, Log INFO] @ new \<and>
          attempted new =
            [(alice, take 10 MSG_NOT_CONFIGURED), (alice, drop 10 MSG_NOT_CONFIGURED)] \<and>
          failures_logged new)"
proof -
  have apology: "MSG_APOLOGY \<noteq> BANNER @ [NL, 50]"
    by (simp add: MSG_APOLOGY_def BANNER_def)
  have strip: "strip_banner (Suc 0) (drop 10 MSG_NOT_CONFIGURED) = drop 10 MSG_NOT_CONFIGURED"
    by (simp add: strip_banner_def BANNER_def MSG_NOT_CONFIGURED_def sublist_code prefix_code)
  have len: "length MSG_NOT_CONFIGURED = 17" "length (BANNER @ [NL, 50]) = 15"
    by (simp_all add: MSG_NOT_CONFIGURED_def BANNER_def)
  note short = send_failure_isolated
    [of "message_from alice [50]" sample_listener alice flaky_env "BANNER @ [NL, 50]"
        "[Log INFO, Post 0 15]" "[Log INFO, Log INFO, Post 0 15, Log INFO]"
        "[message_from alice [51]]" "[]" sample_listener alice "[]" "[]" "at_clock 1 9 0 0"
        "Inr []",
     OF _ not_system_phrase(1) _ _ flaky_reply]
  note long = send_failure_isolated
    [of "message_from alice [104, 105]" "sample_listener\<lparr>max_message_length := 10\<rparr>" alice
        offline_env MSG_NOT_CONFIGURED "[Log ERROR]" "[Log INFO, Log ERROR, Log INFO]" "[]"
        "[take 10 MSG_NOT_CONFIGURED, drop 10 MSG_NOT_CONFIGURED]" sample_listener alice "[]"
        "[]" "at_clock 1 9 0 0" "Inr []",
     OF _ not_system_phrase(2) _ _ offline_reply]
  have first: "\<exists>st'. process_message flaky_env sample_listener alice (message_from alice [50]) =
            Returns st' \<and>
          trace st' = [Log INFO, Log INFO, Post 0 15, Log INFO,
                       SendFailed alice (BANNER @ [NL, 50]), Log ERROR,
                       Sent alice MSG_APOLOGY] \<and>
          process_all flaky_env sample_listener alice
              [message_from alice [50], message_from alice [51]] =
            process_all flaky_env st' alice [message_from alice [51]]"
    using short apology len
    by (simp add: message_from_def sample_listener_def flaky_env_def echo_env_def alice_def
        bot_def)
  have second: "\<exists>st' new. process_message offline_env
            (sample_listener\<lparr>max_message_length := 10\<rparr>)
            alice (message_from alice [104, 105]) = Returns st' \<and>
          trace st' = [Log INFO, Log ERROR, Log INFO] @ new \<and>
          attempted new =
            [(alice, take 10 MSG_NOT_CONFIGURED), (alice, drop 10 MSG_NOT_CONFIGURED)] \<and>
          failures_logged new"
    using long split_not_configured strip len
    by (auto simp add: message_from_def sample_listener_def alice_def bot_def strip_banner_def
        enumerate_eq_zip upt_rec)
  from first second show ?thesis by blast
qed

theorem chunked_send_failure_counterexample:
  "process_message offline_env (sample_listener\<lparr>max_message_length := 10\<rparr>) alice
     (message_from alice [104, 105]) =
   Returns (sample_listener
     \<lparr>max_message_length := 10,
      last_message_time := [alice \<mapsto> at_clock 1 9 30 0],
      trace := [Log INFO, Log ERROR, Log INFO,
                SendFailed alice (take 10 MSG_NOT_CONFIGURED), Log ERROR,
                SendFailed alice (drop 10 MSG_NOT_CONFIGURED), Log ERROR]\<rparr>) \<and>
   (alice, MSG_APOLOGY) \<notin> set (attempted
      [Log INFO, Log ERROR, Log INFO,
       SendFailed alice (take 10 MSG_NOT_CONFIGURED), Log ERROR,
       SendFailed alice (drop 10 MSG_NOT_CONFIGURED), Log ERROR])"
proof -
  have short: "\<not> sublist BANNER (drop 10 MSG_NOT_CONFIGURED)"
    by (simp add: BANNER_def MSG_NOT_CONFIGURED_def sublist_code prefix_code)
  have "length MSG_NOT_CONFIGURED = 17" by (simp add: MSG_NOT_CONFIGURED_def)
  moreover have "MSG_APOLOGY \<noteq> take 10 MSG_NOT_CONFIGURED"
    and "MSG_APOLOGY \<noteq> drop 10 MSG_NOT_CONFIGURED"
    by (simp_all add: MSG_APOLOGY_def MSG_NOT_CONFIGURED_def)
  ultimately show ?thesis
    using short
    by (simp add: process_message_def reply_to_def get_reply_def SendMsg_def
        send_long_message_def split_not_configured strip_banner_def enumerate_eq_zip
        upt_rec Let_def offline_env_def sample_listener_def message_from_def alice_def
        bot_def skip_keywords_def FRIEND_def sublist_code prefix_code)
qed

section \<open>The hourly report\<close>

lemma sent_count_append: "sent_count (xs @ ys) = sent_count xs + sent_count ys"
  by (induction xs rule: sent_count.induct) simp_all

lemma report_check_sent:
  "sent_count (trace st) < sent_count (trace (report_check e st now)) \<longleftrightarrow> fires e st now"
  by (auto simp: report_check_def send_time_report_def SendMsg_def fires_def Let_def
      sent_count_append split: option.splits)

lemma report_check_hour:
  "last_reported_hour (report_check e st now) =
     (if fires e st now then int (hour now) else last_reported_hour st)"
  by (auto simp: report_check_def send_time_report_def SendMsg_def fires_def Let_def
      split: option.splits)

lemma report_check_enabled: "time_report (report_check e st now) = time_report st"
  by (auto simp: report_check_def send_time_report_def SendMsg_def Let_def
      split: option.splits)

lemma announcements_subset: "set (announcements e st nows) \<subseteq> set nows"
  by (induction nows arbitrary: st) (auto simp: Let_def)

lemma announcements_spaced_aux:
  "(\<forall>now \<in> set (announcements e st nows).
       time_report st \<and> minute now = 0 \<and> second now < 10) \<and>
   successively (\<lambda>a b. hour a \<noteq> hour b) (announcements e st nows) \<and>
   (announcements e st nows \<noteq> [] \<longrightarrow>
      int (hour (hd (announcements e st nows))) \<noteq> last_reported_hour st)"
proof (induction nows arbitrary: st)
  case Nil
  then show ?case by simp
next
  case (Cons now nows)
  let ?st' = "report_check e st now"
  note IH = Cons.IH[of ?st']
  show ?case
  proof (cases "fires e st now")
    case True
    then have here: "time_report st \<and> minute now = 0 \<and> second now < 10 \<and>
        int (hour now) \<noteq> last_reported_hour st"
      by (simp add: fires_def)
    have as: "announcements e st (now # nows) = now # announcements e ?st' nows"
      using True by (simp add: Let_def report_check_sent)
    have "last_reported_hour ?st' = int (hour now)"
      using True by (simp add: report_check_hour)
    with IH have "successively (\<lambda>a b. hour a \<noteq> hour b) (now # announcements e ?st' nows)"
      by (auto simp: successively_Cons)
    with IH here as show ?thesis by (simp add: report_check_enabled)
  next
    case False
    then have as: "announcements e st (now # nows) = announcements e ?st' nows"
      by (simp add: Let_def report_check_sent)
    have "last_reported_hour ?st' = last_reported_hour st"
      using False by (simp add: report_check_hour)
    with IH as show ?thesis by (simp add: report_check_enabled)
  qed
qed

lemma announcements_sorted:
  assumes "sorted (map clock_hour nows)"
  shows "sorted (map clock_hour (announcements e st nows))"
  using assms
proof (induction nows arbitrary: st)
  case Nil
  then show ?case by simp
next
  case (Cons now nows)
  let ?st' = "report_check e st now"
  have tail: "sorted (map clock_hour (announcements e ?st' nows))"
    using Cons by simp
  have "clock_hour now \<le> clock_hour later" if "later \<in> set (announcements e ?st' nows)"
    for later
    using that Cons.prems announcements_subset[of e ?st' nows] by auto
  with tail show ?case by (auto simp: Let_def)
qed

lemma sorted_changing_distinct:
  assumes "sorted (map f xs)" and "successively (\<lambda>a b. f a \<noteq> f b) xs"
  shows "distinct (map f xs)"
  using assms
proof (induction xs)
  case Nil
  then show ?case by simp
next
  case (Cons x xs)
  then have tail: "distinct (map f xs)"
    by (cases xs) simp_all
  have "f x \<noteq> f y" if "y \<in> set xs" for y
  proof (cases xs)
    case Nil
    with that show ?thesis by simp
  next
    case (Cons z zs)
    with Cons.prems \<open>sorted (map f (x # xs))\<close> have "f x \<le> f z" and "f x \<noteq> f z"
      using Cons.prems(2) by simp_all
    then have "f x < f z" by simp
    moreover have "f z \<le> f y"
      using that Cons \<open>sorted (map f (x # xs))\<close> by auto
    ultimately show ?thesis by simp
  qed
  with tail show ?case by auto
qed

lemma sweep_days:
  "announcements echo_env sample_listener
      [at_clock 1 9 0 0, at_clock 1 9 0 1, at_clock 1 9 1 0, at_clock 1 10 0 3,
       at_clock 2 9 0 0] =
   [at_clock 1 9 0 0, at_clock 1 10 0 3, at_clock 2 9 0 0]"
  by (simp add: report_check_def send_time_report_def SendMsg_def Let_def echo_env_def
      sample_listener_def at_clock_def)

text \<open>
  C7. Over any sequence of evaluations of the report condition whose clock does not go
  back, at most one report is sent in each hour of the clock (the reports sent fall in
  pairwise different clock hours), and a report is sent only when reporting is enabled,
  the minute is 0 and the second is below 10.
\<close>

theorem announcements_once_per_hour:
  assumes "sorted (map clock_hour nows)" and "\<forall>now \<in> set nows. hour now < 24"
  shows "distinct (map clock_hour (announcements e st nows)) \<and>
         (\<forall>now \<in> set (announcements e st nows).
            time_report st \<and> minute now = 0 \<and> second now < 10)"
proof -
  let ?sent = "announcements e st nows"
  have day: "hour now < 24" if "now \<in> set ?sent" for now
    using that assms(2) announcements_subset[of e st nows] by auto
  have "successively (\<lambda>a b. hour a \<noteq> hour b) ?sent"
    using announcements_spaced_aux[of e st nows] by blast
  then have "successively (\<lambda>a b. clock_hour a \<noteq> clock_hour b) ?sent"
  proof (rule successively_mono)
    fix a b
    assume "a \<in> set ?sent" and "b \<in> set ?sent" and differ: "hour a \<noteq> hour b"
    then have "hour a < 24" and "hour b < 24" using day by simp_all
    with differ show "clock_hour a \<noteq> clock_hour b"
      unfolding clock_hour_def by presburger
  qed
  with announcements_sorted[OF assms(1), of e st]
  have "distinct (map clock_hour ?sent)"
    by (rule sorted_changing_distinct)
  with announcements_spaced_aux[of e st nows] show ?thesis by blast
qed

theorem announcements_once_per_hour_witness:
  "announcements echo_env sample_listener
      [at_clock 1 9 0 0, at_clock 1 9 0 1, at_clock 1 9 1 0, at_clock 1 10 0 3,
       at_clock 2 9 0 0] =
     [at_clock 1 9 0 0, at_clock 1 10 0 3, at_clock 2 9 0 0] \<and>
   distinct (map clock_hour [at_clock 1 9 0 0, at_clock 1 10 0 3, at_clock 2 9 0 0]) \<and>
   time_report sample_listener \<and> minute (at_clock 1 10 0 3) = 0 \<and>
   second (at_clock 1 10 0 3) < 10"
proof -
  let ?nows = "[at_clock 1 9 0 0, at_clock 1 9 0 1, at_clock 1 9 1 0, at_clock 1 10 0 3,
      at_clock 2 9 0 0]"
  have clock: "sorted (map clock_hour ?nows)"
    by (simp add: clock_hour_def at_clock_def)
  have hours: "\<forall>now \<in> set ?nows. hour now < 24"
    by (simp add: at_clock_def)
  from announcements_once_per_hour[OF clock hours, of echo_env sample_listener]
  show ?thesis
    unfolding sweep_days by simp
qed

end
